theory Spec2Isabelle
  imports Main
begin

section \<open>Text normalisation helpers (fhnw/nlp/utils/normalize.py)\<close>

subsection \<open>Values, errors and the external functions\<close>

text \<open>
  The functions of \<^verbatim>\<open>normalize.py\<close> dispatch on the run-time kind of their argument.
  A cell of a dataframe column, or the \<^verbatim>\<open>text\<close> argument, is one of: a Python string,
  an iterable of strings, or something else (a number, \<^verbatim>\<open>None\<close>).
  A string is a list of characters; characters are code points below 256.
\<close>

datatype pyval = Str string | Tokens "string list" | Num int | NoneVal

text \<open>
  The exceptions the modelled code can raise: \<^verbatim>\<open>TypeError\<close> (the one raised by hand, carrying
  the name of the type received) and \<^verbatim>\<open>KeyError\<close> (a column missing from a dataframe).
\<close>

datatype error = TypeError string | KeyError string

fun type_name :: "pyval \<Rightarrow> string" where
  "type_name (Str s) = ''<class 'str'>''"
| "type_name (Tokens ts) = ''<class 'list'>''"
| "type_name (Num n) = ''<class 'int'>''"
| "type_name NoneVal = ''<class 'NoneType'>''"

definition unsupported :: "pyval \<Rightarrow> error" where
  "unsupported v =
     TypeError (''Only string or iterable (e.g. list) is supported. Received a '' @ type_name v)"

text \<open>
  Modelled from the spec: \<^verbatim>\<open>is_iterable\<close> of \<^verbatim>\<open>fhnw.nlp.utils.processing\<close> is imported by
  \<^verbatim>\<open>normalize.py\<close> but is not among the sources. The spec distinguishes a raw string, an
  ordered sequence of tokens, and values that are neither (a number, null); strings and
  token sequences are the iterable ones.
\<close>

fun is_iterable :: "pyval \<Rightarrow> bool" where
  "is_iterable (Str s) = True"
| "is_iterable (Tokens ts) = True"
| "is_iterable (Num n) = False"
| "is_iterable NoneVal = False"

fun is_str :: "pyval \<Rightarrow> bool" where
  "is_str (Str s) = True"
| "is_str v = False"

text \<open>The characters of a value that passed \<^verbatim>\<open>isinstance(text, str)\<close>.\<close>

fun str_of :: "pyval \<Rightarrow> string" where
  "str_of (Str s) = s"
| "str_of v = []"

text \<open>
  Iterating a value that passed \<^verbatim>\<open>is_iterable\<close> without being a string: the tokens of the
  sequence. (The other cases are never reached by the code below.)
\<close>

fun iter_tokens :: "pyval \<Rightarrow> string list" where
  "iter_tokens (Tokens ts) = ts"
| "iter_tokens (Str s) = map (\<lambda>c. [c]) s"
| "iter_tokens v = []"

text \<open>
  \<^verbatim>\<open>str.lower\<close> on code points below 256: the capital letters A..Z and the capital
  letters of the Latin-1 block (U+00C0..U+00DE without the multiplication sign U+00D7)
  move up by 32; every other character stays.
\<close>

definition lower_char :: "char \<Rightarrow> char" where
  "lower_char c =
     (let n = (of_char c :: nat) in
      if (65 \<le> n \<and> n \<le> 90) \<or> (192 \<le> n \<and> n \<le> 222 \<and> n \<noteq> 215)
      then char_of (n + 32) else c)"

definition lower :: "string \<Rightarrow> string" where
  "lower s = map lower_char s"

subsection \<open>tokenize and tokenize_stem\<close>

text \<open>
  \<^verbatim>\<open>word_tokenize\<close> (nltk) is external: it is the parameter \<open>word_tokenize\<close>, any function
  from strings to token lists. The stop words are a set, tested with \<^verbatim>\<open>not in\<close>.
\<close>

definition tokenize ::
  "(string \<Rightarrow> string list) \<Rightarrow> pyval \<Rightarrow> string set \<Rightarrow> error + string list" where
  "tokenize word_tokenize text stopwords =
     (if is_str text then
        (let word_tokens = word_tokenize (str_of text)
         in Inr [lower word. word \<leftarrow> word_tokens, lower word \<notin> stopwords])
      else if is_iterable text then
        (let word_tokens = iter_tokens text
         in Inr [lower word. word \<leftarrow> word_tokens, lower word \<notin> stopwords])
      else Inl (unsupported text))"

definition tokenize_stem ::
  "(string \<Rightarrow> string list) \<Rightarrow> pyval \<Rightarrow> string set \<Rightarrow> (string \<Rightarrow> string)
     \<Rightarrow> error + string list" where
  "tokenize_stem word_tokenize text stopwords stem =
     (if is_str text then
        (let word_tokens = word_tokenize (str_of text)
         in Inr [stem (lower word). word \<leftarrow> word_tokens, lower word \<notin> stopwords])
      else if is_iterable text then
        (let word_tokens = iter_tokens text
         in Inr [stem (lower word). word \<leftarrow> word_tokens, lower word \<notin> stopwords])
      else Inl (unsupported text))"

subsection \<open>tokenize_lemma\<close>

text \<open>
  The annotated document a spaCy pipeline returns, as far as \<^verbatim>\<open>tokenize_lemma\<close> reads it:
  the tokens (\<^verbatim>\<open>doc[k]\<close>, with \<^verbatim>\<open>idx\<close>, \<^verbatim>\<open>is_alpha\<close>, \<^verbatim>\<open>is_punct\<close>, \<^verbatim>\<open>text\<close>, \<^verbatim>\<open>lemma_\<close>) and
  the entity spans (\<^verbatim>\<open>doc.ents[k]\<close>, with \<^verbatim>\<open>start_char\<close>, \<^verbatim>\<open>end_char\<close>, \<^verbatim>\<open>lemma_\<close>).
\<close>

record token =
  idx :: nat
  is_alpha :: bool
  is_punct :: bool
  tok_text :: string
  tok_lemma :: string

record span =
  start_char :: nat
  end_char :: nat
  ent_lemma :: string

record doc =
  toks :: "token list"
  ents :: "span list"

text \<open>
  The pipeline \<^verbatim>\<open>lemmanizer(text, disable=[...])\<close> is external: a function of the text and of
  the list of disabled components. \<^verbatim>\<open>join_tokens\<close> of \<^verbatim>\<open>fhnw.nlp.utils.text\<close> is not among
  the sources; it is a parameter as well (called with the tokens and an empty set).
\<close>

type_synonym lemmanizer = "string \<Rightarrow> string list \<Rightarrow> doc"

text \<open>The condition under which a single token's lemma is kept (lines 99 and 117).\<close>

definition keep_token :: "string set \<Rightarrow> token \<Rightarrow> bool" where
  "keep_token stopwords tok \<longleftrightarrow>
     is_alpha tok \<and> \<not> is_punct tok \<and> lower (tok_text tok) \<notin> stopwords
       \<and> lower (tok_lemma tok) \<notin> stopwords"

text \<open>
  The inner loop of the entity branch (lines 109-110): advance the token cursor while
  there is a token and it starts before the end of the entity.
\<close>

function skip_span :: "token list \<Rightarrow> nat \<Rightarrow> nat \<Rightarrow> nat" where
  "skip_span d end_c k =
     (if k < length d \<and> idx (d ! k) < end_c then skip_span d end_c (k + 1) else k)"
  by pat_completeness auto
termination
  by (relation "measure (\<lambda>(d, end_c, k). length d - k)") auto

declare skip_span.simps [simp del]

text \<open>The state of the outer loop: the two cursors and the list built so far.\<close>

record ner_state =
  tok_idx :: nat
  ner_idx :: nat
  tokens :: "string list"

text \<open>One iteration of the outer loop body (lines 98-112), entered with \<open>tok_idx < len(doc)\<close>.\<close>

definition ner_step :: "doc \<Rightarrow> string set \<Rightarrow> ner_state \<Rightarrow> ner_state" where
  "ner_step d stopwords st =
     (if ner_idx st \<ge> length (ents d)
         \<or> idx (toks d ! tok_idx st) < start_char (ents d ! ner_idx st)
      then
        st\<lparr>tokens := (if keep_token stopwords (toks d ! tok_idx st)
                       then tokens st @ [lower (tok_lemma (toks d ! tok_idx st))]
                       else tokens st),
           tok_idx := tok_idx st + 1\<rparr>
      else
        st\<lparr>tokens := tokens st @ [lower (ent_lemma (ents d ! ner_idx st))],
           tok_idx := skip_span (toks d) (end_char (ents d ! ner_idx st)) (tok_idx st + 1),
           ner_idx := ner_idx st + 1\<rparr>)"

lemma skip_span_ge: "k \<le> skip_span d e k"
proof (induction d e k rule: skip_span.induct)
  case (1 d e k)
  show ?case
  proof (cases "k < length d \<and> idx (d ! k) < e")
    case True
    with 1 have "k + 1 \<le> skip_span d e (k + 1)" by simp
    moreover from True have "skip_span d e k = skip_span d e (k + 1)"
      by (subst skip_span.simps) simp
    ultimately show ?thesis by simp
  next
    case False
    then have "skip_span d e k = k"
      by (subst skip_span.simps) auto
    then show ?thesis by simp
  qed
qed

lemma ner_step_advances: "tok_idx st < tok_idx (ner_step d S st)"
  using skip_span_ge [of "tok_idx st + 1"]
  by (auto simp: ner_step_def less_eq_Suc_le)

text \<open>The outer loop (line 97) and its result (line 114).\<close>

function ner_loop :: "doc \<Rightarrow> string set \<Rightarrow> ner_state \<Rightarrow> string list" where
  "ner_loop d stopwords st =
     (if tok_idx st < length (toks d) then ner_loop d stopwords (ner_step d stopwords st)
      else tokens st)"
  by pat_completeness auto
termination
proof (relation "measure (\<lambda>(d, stopwords, st). length (toks d) - tok_idx st)")
  show "wf (measure (\<lambda>(d, stopwords, st). length (toks d) - tok_idx st))" by simp
next
  fix d :: doc and stopwords :: "string set" and st :: ner_state
  assume "tok_idx st < length (toks d)"
  with ner_step_advances [of st d stopwords]
  show "((d, stopwords, ner_step d stopwords st), (d, stopwords, st))
          \<in> measure (\<lambda>(d, stopwords, st). length (toks d) - tok_idx st)"
    by simp
qed

declare ner_loop.simps [simp del]

definition tokenize_lemma ::
  "(string list \<Rightarrow> string set \<Rightarrow> string) \<Rightarrow> pyval \<Rightarrow> string set \<Rightarrow> lemmanizer \<Rightarrow> bool
     \<Rightarrow> error + string list" where
  "tokenize_lemma join_tokens text stopwords lemmanizer keep_ners =
     (case (if is_str text then Inr (str_of text)
            else if is_iterable text then Inr (join_tokens (iter_tokens text) {})
            else Inl (unsupported text)) of
        Inl e \<Rightarrow> Inl e
      | Inr text' \<Rightarrow>
          (if keep_ners then
             (let d = lemmanizer text' [''tagger'', ''parser''] in
              Inr (ner_loop d stopwords \<lparr>tok_idx = 0, ner_idx = 0, tokens = []\<rparr>))
           else
             (let d = lemmanizer text' [''tagger'', ''parser'', ''ner''] in
              Inr [lower (tok_lemma tok). tok \<leftarrow> toks d, keep_token stopwords tok])))"

subsection \<open>normalize and normalize_df\<close>

text \<open>\<^verbatim>\<open>None\<close> for the stemmer or the pipeline is the \<open>None\<close> of an option.\<close>

definition normalize_text ::
  "(string \<Rightarrow> string list) \<Rightarrow> (string list \<Rightarrow> string set \<Rightarrow> string) \<Rightarrow> pyval \<Rightarrow> string set
     \<Rightarrow> (string \<Rightarrow> string) option \<Rightarrow> lemmanizer option \<Rightarrow> bool \<Rightarrow> error + string list" where
  "normalize_text word_tokenize join_tokens text stopwords stemmer lemmanizer lemma_with_ner =
     (case lemmanizer of
        Some l \<Rightarrow> tokenize_lemma join_tokens text stopwords l lemma_with_ner
      | None \<Rightarrow>
          (case stemmer of
             Some s \<Rightarrow> tokenize_stem word_tokenize text stopwords s
           | None \<Rightarrow> tokenize word_tokenize text stopwords))"



subsection \<open>Notions used in the statements\<close>

text \<open>
  The input kind that is rejected, the tokens the list comprehensions of \<open>tokenize\<close> and
  \<open>tokenize_stem\<close> run over, and the text handed to the pipeline by \<open>tokenize_lemma\<close>.
\<close>

definition word_tokens :: "(string \<Rightarrow> string list) \<Rightarrow> pyval \<Rightarrow> string list" where
  "word_tokens wt text = (if is_str text then wt (str_of text) else iter_tokens text)"

definition raw_text :: "(string list \<Rightarrow> string set \<Rightarrow> string) \<Rightarrow> pyval \<Rightarrow> string" where
  "raw_text jt text = (if is_str text then str_of text else jt (iter_tokens text) {})"

definition invalid_input_kind :: "pyval \<Rightarrow> bool" where
  "invalid_input_kind text \<longleftrightarrow> \<not> is_str text \<and> \<not> is_iterable text"

text \<open>
  The token offsets of a document increase strictly. An entity span covers the tokens
  \<open>i\<close> up to \<open>j - 1\<close> when these are the tokens that start inside its character range.
\<close>

definition offsets_sorted :: "doc \<Rightarrow> bool" where
  "offsets_sorted d \<longleftrightarrow> sorted_wrt (<) (map idx (toks d))"

definition covers :: "doc \<Rightarrow> span \<Rightarrow> nat \<Rightarrow> nat \<Rightarrow> bool" where
  "covers d e i j \<longleftrightarrow>
     i < j \<and> j \<le> length (toks d)
     \<and> (\<forall>m \<in> {0..<length (toks d)}.
           (i \<le> m \<and> m < j) = (start_char e \<le> idx (toks d ! m) \<and> idx (toks d ! m) < end_char e))"

section \<open>Plotting helpers (fhnw/nlp/utils/ploting.py)\<close>

subsection \<open>plot_history\<close>

text \<open>
  The calls into \<^verbatim>\<open>matplotlib.pyplot\<close> are effects: the state is the log of the calls made so
  far. \<^verbatim>\<open>history.history[key]\<close> is a dictionary lookup and raises \<^verbatim>\<open>KeyError\<close> for a missing
  key; an exception ends the function and leaves the log as it was.
\<close>

datatype 'v plt_call =
  Title string
  | Plot "'v list" string
  | Legend
  | Show
  | Savefig string nat

type_synonym 'v figure_log = "'v plt_call list"

definition plt_call :: "'v plt_call \<Rightarrow> 'v figure_log \<Rightarrow> (error \<times> 'v figure_log) + 'v figure_log" where
  "plt_call c log = Inr (log @ [c])"

definition plt_plot ::
  "(string \<rightharpoonup> 'v list) \<Rightarrow> string \<Rightarrow> string \<Rightarrow> 'v figure_log
     \<Rightarrow> (error \<times> 'v figure_log) + 'v figure_log" where
  "plt_plot history key label log =
     (case history key of
        None \<Rightarrow> Inl (KeyError key, log)
      | Some ys \<Rightarrow> Inr (log @ [Plot ys label]))"

text \<open>Statements run in sequence; the first exception ends the run.\<close>

definition run_statements ::
  "('s \<Rightarrow> 'e + 's) list \<Rightarrow> 's \<Rightarrow> 'e + 's" where
  "run_statements stmts s =
     foldl (\<lambda>r stmt. case r of Inl e \<Rightarrow> Inl e | Inr s' \<Rightarrow> stmt s') (Inr s) stmts"

text \<open>Lines 228-242, statement by statement.\<close>

definition plot_history ::
  "(string \<rightharpoonup> 'v list) \<Rightarrow> string option \<Rightarrow> (error \<times> 'v figure_log) + 'v figure_log" where
  "plot_history history filename =
     run_statements
       [plt_call (Title ''Accuracy''),
        plt_plot history ''accuracy'' ''train'',
        plt_plot history ''val_accuracy'' ''test'',
        plt_call Legend,
        plt_call Show,
        plt_call (Title ''Loss''),
        plt_plot history ''loss'' ''train'',
        plt_plot history ''val_loss'' ''test'',
        plt_call Legend,
        (case filename of
           Some f \<Rightarrow> plt_call (Savefig f 300)
         | None \<Rightarrow> plt_call Show)]
       []"

subsection \<open>create_word_cloud\<close>

text \<open>
  A \<^verbatim>\<open>Counter\<close> is a dictionary that keeps insertion order: an association list with one
  entry per key. \<^verbatim>\<open>Counter.update\<close> counts the elements of an iterable (the characters of a
  string), does nothing for \<^verbatim>\<open>None\<close>, and raises \<^verbatim>\<open>TypeError\<close> for a number.
\<close>

type_synonym counter = "(string \<times> nat) list"

fun counter_add :: "counter \<Rightarrow> string \<Rightarrow> counter" where
  "counter_add [] w = [(w, 1)]"
| "counter_add ((k, n) # rest) w =
     (if k = w then (k, n + 1) # rest else (k, n) # counter_add rest w)"

definition counter_update :: "pyval \<Rightarrow> counter \<Rightarrow> error + counter" where
  "counter_update v c =
     (case v of
        NoneVal \<Rightarrow> Inr c
      | Num n \<Rightarrow> Inl (TypeError ''int object is not iterable'')
      | _ \<Rightarrow> Inr (foldl counter_add c (iter_tokens v)))"

text \<open>
  What the function does after counting: the line it prints (the label and the number of
  distinct words), the frequencies handed to the word cloud (with \<^verbatim>\<open>max_words=1000\<close>), and
  the display.
\<close>

datatype wc_call =
  Print string nat
  | Generate_from_frequencies counter nat
  | Imshow
  | Axis_off
  | Show_cloud

definition create_word_cloud ::
  "(string \<rightharpoonup> pyval list) \<Rightarrow> string \<Rightarrow> string \<Rightarrow> error + wc_call list" where
  "create_word_cloud df label field =
     (case df ''token_lemma'' of
        None \<Rightarrow> Inl (KeyError ''token_lemma'')
      | Some column \<Rightarrow>
          (case run_statements (map counter_update column) [] of
             Inl e \<Rightarrow> Inl e
           | Inr counter \<Rightarrow>
               Inr [Print label (length counter), Generate_from_frequencies counter 1000,
                    Imshow, Axis_off, Show_cloud]))"

section \<open>Sample external functions and inputs\<close>

text \<open>
  A tokenizer that splits at blanks, a stemmer that keeps three letters, a join with blanks,
  and a pipeline that returns one fixed annotated document (without the entities when
  \<^verbatim>\<open>ner\<close> is disabled), the entity of that document, and a training history. They stand
  for the external functions and their results in the concrete instances.
\<close>

fun words_of :: "string \<Rightarrow> string \<Rightarrow> string list" where
  "words_of acc [] = (if acc = [] then [] else [acc])"
| "words_of acc (c # cs) =
     (if c = CHR '' '' then (if acc = [] then [] else [acc]) @ words_of [] cs
      else words_of (acc @ [c]) cs)"

definition sample_word_tokenize :: "string \<Rightarrow> string list" where
  "sample_word_tokenize s = words_of [] s"

definition sample_stem :: "string \<Rightarrow> string" where
  "sample_stem w = take 3 w"

definition sample_join_tokens :: "string list \<Rightarrow> string set \<Rightarrow> string" where
  "sample_join_tokens ts skip = concat (map (\<lambda>t. t @ '' '') ts)"

definition sample_doc :: doc where
  "sample_doc =
     \<lparr>toks = [\<lparr>idx = 0, is_alpha = True, is_punct = False, tok_text = ''The'', tok_lemma = ''the''\<rparr>,
              \<lparr>idx = 4, is_alpha = True, is_punct = False, tok_text = ''Cats'', tok_lemma = ''Cat''\<rparr>,
              \<lparr>idx = 9, is_alpha = True, is_punct = False, tok_text = ''of'', tok_lemma = ''of''\<rparr>,
              \<lparr>idx = 12, is_alpha = True, is_punct = False, tok_text = ''New'', tok_lemma = ''new''\<rparr>,
              \<lparr>idx = 16, is_alpha = True, is_punct = False, tok_text = ''York'', tok_lemma = ''York''\<rparr>,
              \<lparr>idx = 21, is_alpha = True, is_punct = False, tok_text = ''sat'', tok_lemma = ''sit''\<rparr>,
              \<lparr>idx = 24, is_alpha = False, is_punct = True, tok_text = ''.'', tok_lemma = ''.''\<rparr>],
       ents = [\<lparr>start_char = 12, end_char = 20, ent_lemma = ''New York''\<rparr>]\<rparr>"

definition sample_lemmanizer :: lemmanizer where
  "sample_lemmanizer s disable =
     (if ''ner'' \<in> set disable then sample_doc\<lparr>ents := []\<rparr> else sample_doc)"

definition sample_ent :: span where
  "sample_ent = \<lparr>start_char = 12, end_char = 20, ent_lemma = ''New York''\<rparr>"

definition sample_history :: "string \<rightharpoonup> nat list" where
  "sample_history =
     [''accuracy'' \<mapsto> [70, 80], ''val_accuracy'' \<mapsto> [65, 75],
      ''loss'' \<mapsto> [50, 30], ''val_loss'' \<mapsto> [55, 40]]"

section \<open>Properties\<close>

subsection \<open>Lowercasing and the closed forms of the tokenizers\<close>

lemma lower_char_idem: "lower_char (lower_char c) = lower_char c"
proof -
  have lt: "(of_char c :: nat) < 256" by simp
  show ?thesis
    unfolding lower_char_def Let_def
    by (auto simp: of_char_of)
qed

lemma lower_idem: "lower (lower s) = lower s"
  by (simp add: lower_def lower_char_idem)

lemma comprehension_filter_map:
  "[f x. x \<leftarrow> xs, P x] = map f (filter P xs)"
  by (induction xs) simp_all

lemma tokenize_eq:
  "\<not> invalid_input_kind text \<Longrightarrow>
    tokenize wt text S = Inr (filter (\<lambda>w. w \<notin> S) (map lower (word_tokens wt text)))"
  by (auto simp: tokenize_def word_tokens_def invalid_input_kind_def Let_def
      comprehension_filter_map filter_map comp_def)

lemma tokenize_stem_eq:
  "\<not> invalid_input_kind text \<Longrightarrow>
    tokenize_stem wt text S stem
      = Inr (map stem (filter (\<lambda>w. w \<notin> S) (map lower (word_tokens wt text))))"
  by (auto simp: tokenize_stem_def word_tokens_def invalid_input_kind_def Let_def
      comprehension_filter_map filter_map comp_def)

lemma tokenize_lemma_plain_eq:
  "\<not> invalid_input_kind text \<Longrightarrow>
    tokenize_lemma jt text S lem False
      = Inr (map (\<lambda>tok. lower (tok_lemma tok))
              (filter (keep_token S) (toks (lem (raw_text jt text) [''tagger'', ''parser'', ''ner'']))))"
  by (auto simp: tokenize_lemma_def raw_text_def invalid_input_kind_def Let_def
      comprehension_filter_map)

lemma tokenize_lemma_ner_eq:
  "\<not> invalid_input_kind text \<Longrightarrow>
    tokenize_lemma jt text S lem True
      = Inr (ner_loop (lem (raw_text jt text) [''tagger'', ''parser'']) S
               \<lparr>tok_idx = 0, ner_idx = 0, tokens = []\<rparr>)"
  by (auto simp: tokenize_lemma_def raw_text_def invalid_input_kind_def Let_def)






text \<open>Evaluating \<open>lower\<close> on string literals.\<close>

lemma char_of_nat_bits:
  "char_of (n::nat) = Char (odd n) (odd (n div 2)) (odd (n div 4)) (odd (n div 8))
      (odd (n div 16)) (odd (n div 32)) (odd (n div 64)) (odd (n div 128))"
  by (simp add: char_of_def bit_iff_odd)

lemmas lower_eval = lower_def lower_char_def char_of_nat_bits

subsection \<open>tokenize, tokenize_stem and the plain lemmatizer\<close>

text \<open>
  Claim C3. For a string or an already tokenized sequence, \<open>tokenize\<close> returns a list, every
  token of the list is its own lowercased form, and the lowercased form of no returned token
  is a member of the stop word set.
\<close>

theorem tokenize_lowercase_no_stopwords:
  assumes "\<not> invalid_input_kind text"
  shows "\<exists>r. tokenize wt text S = Inr r \<and> (\<forall>w \<in> set r. lower w = w \<and> lower w \<notin> S)"
  using assms by (auto simp: tokenize_eq lower_idem)

theorem tokenize_lowercase_no_stopwords_witness:
  "\<not> invalid_input_kind (Str ''The Cat Sat .'')
   \<and> tokenize sample_word_tokenize (Str ''The Cat Sat .'') {''the''} = Inr [''cat'', ''sat'', ''.'']
   \<and> tokenize sample_word_tokenize (Tokens [''The'', ''Cat'', ''Sat'', ''.'']) {''the''}
       = Inr [''cat'', ''sat'', ''.'']
   \<and> lower ''cat'' = ''cat'' \<and> lower ''sat'' = ''sat'' \<and> lower ''.'' = ''.''
   \<and> lower ''cat'' \<notin> {''the''} \<and> lower ''sat'' \<notin> {''the''} \<and> lower ''.'' \<notin> {''the''}"
proof -
  have h: "\<not> invalid_input_kind (Str ''The Cat Sat .'')"
    by (simp add: invalid_input_kind_def)
  show ?thesis
    using h tokenize_lowercase_no_stopwords [OF h, of sample_word_tokenize "{''the''}"]
    by (simp add: tokenize_def sample_word_tokenize_def lower_eval)
qed

text \<open>
  Claim C6. With the empty stop word set, \<open>tokenize\<close> of a token sequence is the sequence of
  the lowercased tokens, in the same order and of the same length; \<open>normalize\<close> without
  stemmer and pipeline does the same, and applied to its own output it returns that output.
\<close>

theorem tokenize_tokens_empty_stopwords:
  "tokenize wt (Tokens t) {} = Inr (map lower t)
   \<and> length (map lower t) = length t
   \<and> normalize_text wt jt (Tokens t) {} None None b = Inr (map lower t)
   \<and> normalize_text wt jt (Tokens (map lower t)) {} None None b = Inr (map lower t)"
  by (simp add: normalize_text_def tokenize_eq invalid_input_kind_def word_tokens_def lower_idem)

theorem tokenize_tokens_empty_stopwords_witness:
  "tokenize sample_word_tokenize (Tokens [''The'', ''CAT'', ''sat'']) {} = Inr [''the'', ''cat'', ''sat'']
   \<and> normalize_text sample_word_tokenize sample_join_tokens (Tokens [''the'', ''cat'', ''sat'']) {}
        None None False = Inr [''the'', ''cat'', ''sat'']"
  using tokenize_tokens_empty_stopwords [of sample_word_tokenize "[''The'', ''CAT'', ''sat'']" sample_join_tokens False]
  by (simp add: normalize_text_def tokenize_def lower_eval)

text \<open>
  Claim C7. \<open>tokenize_stem\<close> lowercases the tokens, drops the lowercased tokens that are in
  the stop word set (the test is on the lowercased token, before stemming), and applies
  the stemmer to each lowercased token that is left.
\<close>

theorem tokenize_stem_filters_raw_token:
  assumes "\<not> invalid_input_kind text"
  shows "tokenize_stem wt text S stem
           = Inr (map stem (filter (\<lambda>w. w \<notin> S) (map lower (word_tokens wt text))))"
  using assms by (rule tokenize_stem_eq)

theorem tokenize_stem_filters_raw_token_witness:
  "\<not> invalid_input_kind (Tokens [''Running'', ''Run'', ''walks''])
   \<and> tokenize_stem sample_word_tokenize (Tokens [''Running'', ''Run'', ''walks'']) {''run''} sample_stem
       = Inr [''run'', ''wal'']"
proof -
  have h: "\<not> invalid_input_kind (Tokens [''Running'', ''Run'', ''walks''])"
    by (simp add: invalid_input_kind_def)
  show ?thesis
    using h tokenize_stem_filters_raw_token [OF h, of sample_word_tokenize "{''run''}" sample_stem]
    by (simp add: word_tokens_def sample_stem_def lower_eval)
qed

text \<open>
  Claim C8. Without entity preservation, \<open>tokenize_lemma\<close> returns, in document order, the
  lowercased lemma of exactly the tokens that are alphabetic, are not punctuation, and whose
  lowercased surface form and lowercased lemma are both absent from the stop word set.
\<close>

theorem tokenize_lemma_plain_result:
  assumes "\<not> invalid_input_kind text"
  shows "tokenize_lemma jt text S lem False
      = Inr (map (\<lambda>tok. lower (tok_lemma tok))
              (filter (\<lambda>tok. is_alpha tok \<and> \<not> is_punct tok \<and> lower (tok_text tok) \<notin> S
                              \<and> lower (tok_lemma tok) \<notin> S)
                 (toks (lem (raw_text jt text) [''tagger'', ''parser'', ''ner'']))))"
  using tokenize_lemma_plain_eq [OF assms, of jt S lem]
  by (simp add: keep_token_def [abs_def])

theorem tokenize_lemma_plain_result_witness:
  "\<not> invalid_input_kind (Str ''The Cats of New York sat.'')
   \<and> tokenize_lemma sample_join_tokens (Str ''The Cats of New York sat.'') {''the'', ''of''}
        sample_lemmanizer False = Inr [''cat'', ''new'', ''york'', ''sit'']"
proof -
  have h: "\<not> invalid_input_kind (Str ''The Cats of New York sat.'')"
    by (simp add: invalid_input_kind_def)
  show ?thesis
    using h tokenize_lemma_plain_result [OF h, of sample_join_tokens "{''the'', ''of''}" sample_lemmanizer]
    by (simp add: raw_text_def sample_lemmanizer_def sample_doc_def lower_eval)
qed

subsection \<open>The invalid input kind and the batch normalizer\<close>





subsection \<open>Casing in the stop word test\<close>







subsection \<open>The merge of tokens and entity spans\<close>

lemma skip_span_unfold_go:
  "k < length d \<Longrightarrow> idx (d ! k) < e \<Longrightarrow> skip_span d e k = skip_span d e (Suc k)"
  by (subst skip_span.simps) simp

lemma skip_span_unfold_stop:
  "\<not> (k < length d \<and> idx (d ! k) < e) \<Longrightarrow> skip_span d e k = k"
  by (subst skip_span.simps) auto

lemma skip_span_le: "k \<le> length d \<Longrightarrow> skip_span d e k \<le> length d"
proof (induction d e k rule: skip_span.induct)
  case (1 d e k)
  show ?case
  proof (cases "k < length d \<and> idx (d ! k) < e")
    case True
    with 1 show ?thesis by (simp add: skip_span_unfold_go)
  next
    case False
    with 1 show ?thesis by (simp add: skip_span_unfold_stop)
  qed
qed

lemma skip_span_inside: "k \<le> m \<Longrightarrow> m < skip_span d e k \<Longrightarrow> idx (d ! m) < e"
proof (induction d e k rule: skip_span.induct)
  case (1 d e k)
  show ?case
  proof (cases "k < length d \<and> idx (d ! k) < e")
    case True
    show ?thesis
    proof (cases "m = k")
      case True
      with \<open>k < length d \<and> idx (d ! k) < e\<close> show ?thesis by simp
    next
      case False
      with 1 True show ?thesis by (simp add: skip_span_unfold_go)
    qed
  next
    case False
    with 1 show ?thesis by (simp add: skip_span_unfold_stop)
  qed
qed

lemma skip_span_stop: "skip_span d e k < length d \<Longrightarrow> e \<le> idx (d ! skip_span d e k)"
proof (induction d e k rule: skip_span.induct)
  case (1 d e k)
  show ?case
  proof (cases "k < length d \<and> idx (d ! k) < e")
    case True
    with 1 show ?thesis by (simp add: skip_span_unfold_go)
  next
    case False
    with 1 show ?thesis by (auto simp: skip_span_unfold_stop)
  qed
qed

lemma skip_span_eq:
  assumes "k \<le> j" "j \<le> length d" "\<forall>m. k \<le> m \<and> m < j \<longrightarrow> idx (d ! m) < e"
    "j < length d \<longrightarrow> e \<le> idx (d ! j)"
  shows "skip_span d e k = j"
proof -
  have "\<not> skip_span d e k < j"
  proof
    assume lt: "skip_span d e k < j"
    with assms(2) have "skip_span d e k < length d" by simp
    from skip_span_stop [OF this] have "e \<le> idx (d ! skip_span d e k)" .
    moreover have "idx (d ! skip_span d e k) < e"
      using assms(3) lt skip_span_ge [of k d e] by blast
    ultimately show False by simp
  qed
  moreover have "\<not> j < skip_span d e k"
  proof
    assume gt: "j < skip_span d e k"
    from skip_span_inside [OF assms(1) gt] have "idx (d ! j) < e" .
    moreover have "j < length d"
      using gt skip_span_le [of k d e] assms(1,2) by simp
    ultimately show False using assms(4) by simp
  qed
  ultimately show ?thesis by simp
qed

lemma sorted_offsets_nth:
  "offsets_sorted d \<Longrightarrow> m < n \<Longrightarrow> n < length (toks d) \<Longrightarrow> idx (toks d ! m) < idx (toks d ! n)"
  using sorted_wrt_nth_less [of "(<)" "map idx (toks d)" m n]
  by (simp add: offsets_sorted_def)

lemma ner_loop_go:
  "tok_idx st < length (toks d) \<Longrightarrow> ner_loop d S st = ner_loop d S (ner_step d S st)"
  by (subst ner_loop.simps) simp

lemma ner_loop_stop:
  "\<not> tok_idx st < length (toks d) \<Longrightarrow> ner_loop d S st = tokens st"
  by (subst ner_loop.simps) simp

lemma ner_step_token:
  "ner_idx st \<ge> length (ents d) \<or> idx (toks d ! tok_idx st) < start_char (ents d ! ner_idx st) \<Longrightarrow>
   ner_step d S st
     = st\<lparr>tokens := tokens st @ map (\<lambda>t. lower (tok_lemma t)) (filter (keep_token S) [toks d ! tok_idx st]),
          tok_idx := tok_idx st + 1\<rparr>"
  by (simp add: ner_step_def)

lemma ner_step_entity:
  "\<not> (ner_idx st \<ge> length (ents d) \<or> idx (toks d ! tok_idx st) < start_char (ents d ! ner_idx st)) \<Longrightarrow>
   ner_step d S st
     = st\<lparr>tokens := tokens st @ [lower (ent_lemma (ents d ! ner_idx st))],
          tok_idx := skip_span (toks d) (end_char (ents d ! ner_idx st)) (tok_idx st + 1),
          ner_idx := ner_idx st + 1\<rparr>"
  by (simp add: ner_step_def)

lemma ner_loop_tokens_run:
  assumes "tok_idx st \<le> i" "i \<le> length (toks d)"
    "\<forall>m. tok_idx st \<le> m \<and> m < i \<longrightarrow>
        ner_idx st \<ge> length (ents d) \<or> idx (toks d ! m) < start_char (ents d ! ner_idx st)"
  shows "ner_loop d S st
     = ner_loop d S
         (st\<lparr>tokens := tokens st @ map (\<lambda>t. lower (tok_lemma t))
                           (filter (keep_token S) (take (i - tok_idx st) (drop (tok_idx st) (toks d)))),
             tok_idx := i\<rparr>)"
  using assms
proof (induction "i - tok_idx st" arbitrary: st)
  case 0
  then have eq: "i = tok_idx st" by simp
  show ?case unfolding eq by simp
next
  case (Suc n)
  let ?t = "tok_idx st"
  from Suc have lt: "?t < i" and len: "?t < length (toks d)" by auto
  have cond: "ner_idx st \<ge> length (ents d) \<or> idx (toks d ! ?t) < start_char (ents d ! ner_idx st)"
    using Suc.prems(3) lt by blast
  let ?st' = "ner_step d S st"
  have st': "?st' = st\<lparr>tokens := tokens st @ map (\<lambda>t. lower (tok_lemma t))
                         (filter (keep_token S) [toks d ! ?t]), tok_idx := ?t + 1\<rparr>"
    using cond by (rule ner_step_token)
  have a: "n = i - tok_idx ?st'" using Suc(2) by (simp add: st')
  have b: "tok_idx ?st' \<le> i" using lt by (simp add: st')
  have c: "\<forall>m. tok_idx ?st' \<le> m \<and> m < i \<longrightarrow>
        ner_idx ?st' \<ge> length (ents d) \<or> idx (toks d ! m) < start_char (ents d ! ner_idx ?st')"
    using Suc.prems(3) by (simp add: st')
  have split: "take (i - ?t) (drop ?t (toks d))
                 = toks d ! ?t # take (i - (?t + 1)) (drop (?t + 1) (toks d))"
  proof -
    have "drop ?t (toks d) = toks d ! ?t # drop (Suc ?t) (toks d)"
      using len by (simp add: Cons_nth_drop_Suc)
    moreover have "i - ?t = Suc (i - (?t + 1))" using lt by simp
    ultimately show ?thesis by simp
  qed
  have "ner_loop d S st = ner_loop d S ?st'" using len by (rule ner_loop_go)
  also have "\<dots> = ner_loop d S
         (?st'\<lparr>tokens := tokens ?st' @ map (\<lambda>t. lower (tok_lemma t))
                           (filter (keep_token S) (take (i - tok_idx ?st') (drop (tok_idx ?st') (toks d)))),
             tok_idx := i\<rparr>)"
    by (rule Suc(1) [OF a b Suc.prems(2) c])
  also have "\<dots> = ner_loop d S
         (st\<lparr>tokens := tokens st @ map (\<lambda>t. lower (tok_lemma t))
                           (filter (keep_token S) (take (i - ?t) (drop ?t (toks d)))),
             tok_idx := i\<rparr>)"
    by (simp add: st' split)
  finally show ?case .
qed

text \<open>
  Claim C1. Let the token offsets of the annotated document increase, and let the document
  have exactly one entity span, covering the tokens \<open>i\<close> up to \<open>j - 1\<close>. Then
  \<open>tokenize_lemma\<close> with entity preservation returns the filtered lemmas of the tokens
  before \<open>i\<close>, then the lowercased lemma of the span, once and unfiltered, then the filtered
  lemmas of the tokens from \<open>j\<close> on: no token of the span contributes a lemma of its own,
  whether or not it would pass the filter.
\<close>

theorem ner_merge_single_entity:
  assumes valid: "\<not> invalid_input_kind text"
    and d: "d = lem (raw_text jt text) [''tagger'', ''parser'']"
    and sorted: "offsets_sorted d"
    and one: "ents d = [e]"
    and cov: "covers d e i j"
  shows "tokenize_lemma jt text S lem True
           = Inr (map (\<lambda>t. lower (tok_lemma t)) (filter (keep_token S) (take i (toks d)))
                  @ [lower (ent_lemma e)]
                  @ map (\<lambda>t. lower (tok_lemma t)) (filter (keep_token S) (drop j (toks d))))"
proof -
  let ?n = "length (toks d)"
  let ?emit = "\<lambda>ts. map (\<lambda>t. lower (tok_lemma t)) (filter (keep_token S) ts)"
  from cov have ij: "i < j" and jn: "j \<le> ?n"
    and span: "\<And>m. m < ?n \<Longrightarrow>
        (i \<le> m \<and> m < j) = (start_char e \<le> idx (toks d ! m) \<and> idx (toks d ! m) < end_char e)"
    by (auto simp: covers_def)
  have i_n: "i < ?n" using ij jn by simp
  have at_i: "start_char e \<le> idx (toks d ! i)" "idx (toks d ! i) < end_char e"
    using span [OF i_n] ij by auto
  have before: "idx (toks d ! m) < start_char e" if "m < i" for m
  proof -
    have "m < ?n" using that i_n by simp
    from span [OF this] that
    have "\<not> (start_char e \<le> idx (toks d ! m) \<and> idx (toks d ! m) < end_char e)" by simp
    moreover have "idx (toks d ! m) < idx (toks d ! i)"
      using sorted that i_n by (rule sorted_offsets_nth)
    ultimately show ?thesis using at_i(2) by simp
  qed
  have inside: "idx (toks d ! m) < end_char e" if "i + 1 \<le> m" "m < j" for m
    using span [of m] that jn by simp
  have after: "end_char e \<le> idx (toks d ! j)" if "j < ?n"
  proof -
    from span [OF that]
    have "\<not> (start_char e \<le> idx (toks d ! j) \<and> idx (toks d ! j) < end_char e)" by simp
    moreover have "idx (toks d ! i) < idx (toks d ! j)"
      using sorted ij that by (rule sorted_offsets_nth)
    ultimately show ?thesis using at_i(1) by simp
  qed
  let ?st0 = "\<lparr>tok_idx = 0, ner_idx = 0, tokens = []\<rparr>"
  let ?st1 = "\<lparr>tok_idx = i, ner_idx = 0, tokens = ?emit (take i (toks d))\<rparr>"
  let ?st2 = "\<lparr>tok_idx = j, ner_idx = 1, tokens = ?emit (take i (toks d)) @ [lower (ent_lemma e)]\<rparr>"
  have "ner_loop d S ?st0 = ner_loop d S ?st1"
    using ner_loop_tokens_run [of ?st0 i d S] i_n before one by simp
  also have "\<dots> = ner_loop d S (ner_step d S ?st1)"
    using i_n by (simp add: ner_loop_go)
  also have "ner_step d S ?st1 = ?st2"
  proof -
    have "skip_span (toks d) (end_char e) (i + 1) = j"
      using ij jn inside after by (intro skip_span_eq) auto
    moreover have "\<not> (ner_idx ?st1 \<ge> length (ents d)
        \<or> idx (toks d ! tok_idx ?st1) < start_char (ents d ! ner_idx ?st1))"
      using one at_i(1) by simp
    ultimately show ?thesis
      using one by (simp add: ner_step_entity)
  qed
  also have "ner_loop d S ?st2
      = ner_loop d S (?st2\<lparr>tokens := tokens ?st2 @ ?emit (take (?n - j) (drop j (toks d))),
                           tok_idx := ?n\<rparr>)"
    using ner_loop_tokens_run [of ?st2 ?n d S] jn one by simp
  also have "\<dots> = ?emit (take i (toks d)) @ [lower (ent_lemma e)] @ ?emit (drop j (toks d))"
    by (simp add: ner_loop_stop)
  finally show ?thesis
    using valid d by (simp add: tokenize_lemma_ner_eq)
qed

lemma sample_doc_sorted: "offsets_sorted sample_doc"
  by (simp add: offsets_sorted_def sample_doc_def)

lemma sample_doc_covers: "covers sample_doc sample_ent 3 5"
  by (simp add: covers_def sample_doc_def sample_ent_def atLeastLessThanSuc)

theorem ner_merge_single_entity_witness:
  "\<not> invalid_input_kind (Str ''The Cats of New York sat.'')
   \<and> offsets_sorted sample_doc \<and> ents sample_doc = [sample_ent] \<and> covers sample_doc sample_ent 3 5
   \<and> keep_token {''the'', ''of'', ''york''} (toks sample_doc ! 3)
   \<and> tokenize_lemma sample_join_tokens (Str ''The Cats of New York sat.'') {''the'', ''of'', ''york''}
        sample_lemmanizer True = Inr [''cat'', ''new york'', ''sit'']"
proof -
  have h1: "\<not> invalid_input_kind (Str ''The Cats of New York sat.'')"
    by (simp add: invalid_input_kind_def)
  have h2: "sample_doc = sample_lemmanizer (raw_text sample_join_tokens (Str ''The Cats of New York sat.''))
                [''tagger'', ''parser'']"
    by (simp add: sample_lemmanizer_def)
  have h3: "ents sample_doc = [sample_ent]"
    by (simp add: sample_doc_def sample_ent_def)
  have k: "keep_token {''the'', ''of'', ''york''} (toks sample_doc ! 3)"
    by (simp add: keep_token_def sample_doc_def lower_eval)
  show ?thesis
    using h1 h3 k sample_doc_sorted sample_doc_covers
      ner_merge_single_entity [of "Str ''The Cats of New York sat.''" sample_doc sample_lemmanizer sample_join_tokens
          sample_ent 3 5 "{''the'', ''of'', ''york''}",
          OF h1 h2 sample_doc_sorted h3 sample_doc_covers]
    by (simp add: sample_doc_def sample_ent_def keep_token_def lower_eval)
qed

text \<open>
  Claim C2. Every iteration of the merge loop is one \<open>ner_step\<close>. If no entity is left, or
  the current token starts strictly before the current entity, the step appends the lemma
  of the token if the token passes the filter and moves the token cursor by one. Otherwise
  it appends the lowercased lemma of the entity once, moves the entity cursor by one, and
  moves the token cursor forward, past every token that starts before the end of the entity,
  and over no later token that starts at or after it.
\<close>

theorem ner_step_branches:
  assumes running: "tok_idx st < length (toks d)"
    and sorted: "offsets_sorted d"
  shows "ner_loop d S st = ner_loop d S (ner_step d S st)
    \<and> (ner_idx st \<ge> length (ents d)
         \<or> idx (toks d ! tok_idx st) < start_char (ents d ! ner_idx st) \<longrightarrow>
       ner_step d S st
         = st\<lparr>tokens := tokens st @ (if keep_token S (toks d ! tok_idx st)
                                    then [lower (tok_lemma (toks d ! tok_idx st))] else []),
              tok_idx := tok_idx st + 1\<rparr>)
    \<and> (\<not> (ner_idx st \<ge> length (ents d)
            \<or> idx (toks d ! tok_idx st) < start_char (ents d ! ner_idx st)) \<longrightarrow>
       tokens (ner_step d S st) = tokens st @ [lower (ent_lemma (ents d ! ner_idx st))]
       \<and> ner_idx (ner_step d S st) = ner_idx st + 1
       \<and> tok_idx st < tok_idx (ner_step d S st)
       \<and> tok_idx (ner_step d S st) \<le> length (toks d)
       \<and> (\<forall>m < length (toks d).
             idx (toks d ! m) < end_char (ents d ! ner_idx st) \<longrightarrow> m < tok_idx (ner_step d S st))
       \<and> (\<forall>m. tok_idx st < m \<and> m < tok_idx (ner_step d S st) \<longrightarrow>
             idx (toks d ! m) < end_char (ents d ! ner_idx st)))"
proof -
  have loop: "ner_loop d S st = ner_loop d S (ner_step d S st)"
    using running by (rule ner_loop_go)
  have tok: "ner_step d S st
         = st\<lparr>tokens := tokens st @ (if keep_token S (toks d ! tok_idx st)
                                    then [lower (tok_lemma (toks d ! tok_idx st))] else []),
              tok_idx := tok_idx st + 1\<rparr>"
    if "ner_idx st \<ge> length (ents d)
         \<or> idx (toks d ! tok_idx st) < start_char (ents d ! ner_idx st)"
    using that by (simp add: ner_step_token)
  have ent: "tokens (ner_step d S st) = tokens st @ [lower (ent_lemma (ents d ! ner_idx st))]
       \<and> ner_idx (ner_step d S st) = ner_idx st + 1
       \<and> tok_idx st < tok_idx (ner_step d S st)
       \<and> tok_idx (ner_step d S st) \<le> length (toks d)
       \<and> (\<forall>m < length (toks d).
             idx (toks d ! m) < end_char (ents d ! ner_idx st) \<longrightarrow> m < tok_idx (ner_step d S st))
       \<and> (\<forall>m. tok_idx st < m \<and> m < tok_idx (ner_step d S st) \<longrightarrow>
             idx (toks d ! m) < end_char (ents d ! ner_idx st))"
    if ent: "\<not> (ner_idx st \<ge> length (ents d)
            \<or> idx (toks d ! tok_idx st) < start_char (ents d ! ner_idx st))"
  proof -
  let ?e = "end_char (ents d ! ner_idx st)"
  let ?k = "skip_span (toks d) ?e (tok_idx st + 1)"
  have step: "ner_step d S st
     = st\<lparr>tokens := tokens st @ [lower (ent_lemma (ents d ! ner_idx st))],
          tok_idx := ?k, ner_idx := ner_idx st + 1\<rparr>"
    using ent by (rule ner_step_entity)
  have ge: "tok_idx st + 1 \<le> ?k" by (rule skip_span_ge)
  have le: "?k \<le> length (toks d)" using running by (intro skip_span_le) simp
  have past: "m < ?k" if m: "m < length (toks d)" and off: "idx (toks d ! m) < ?e" for m
  proof (rule ccontr)
    assume "\<not> m < ?k"
    then have km: "?k \<le> m" by simp
    with m have "?k < length (toks d)" by simp
    from skip_span_stop [OF this] have stop: "?e \<le> idx (toks d ! ?k)" .
    have "idx (toks d ! ?k) \<le> idx (toks d ! m)"
    proof (cases "?k = m")
      case True
      then show ?thesis by simp
    next
      case False
      with km have "?k < m" by simp
      from sorted_offsets_nth [OF sorted this m] show ?thesis by simp
    qed
    with stop off show False by simp
  qed
  have within: "idx (toks d ! m) < ?e" if "tok_idx st < m" "m < ?k" for m
    using skip_span_inside [of "tok_idx st + 1" m "toks d" ?e] that by simp
    show ?thesis
      unfolding step using ge le past within by simp
  qed
  from loop tok ent show ?thesis by blast
qed

theorem ner_step_branches_witness:
  "tok_idx \<lparr>tok_idx = 3, ner_idx = 0, tokens = [''cat'']\<rparr> < length (toks sample_doc)
   \<and> offsets_sorted sample_doc
   \<and> \<not> (ner_idx \<lparr>tok_idx = 3, ner_idx = 0, tokens = [''cat'']\<rparr> \<ge> length (ents sample_doc)
          \<or> idx (toks sample_doc ! 3) < start_char (ents sample_doc ! 0))
   \<and> ner_step sample_doc {''the'', ''of''} \<lparr>tok_idx = 3, ner_idx = 0, tokens = [''cat'']\<rparr>
       = \<lparr>tok_idx = 5, ner_idx = 1, tokens = [''cat'', ''new york'']\<rparr>
   \<and> (idx (toks sample_doc ! 1) < start_char (ents sample_doc ! 0))
   \<and> ner_step sample_doc {''the'', ''of''} \<lparr>tok_idx = 1, ner_idx = 0, tokens = []\<rparr>
       = \<lparr>tok_idx = 2, ner_idx = 0, tokens = [''cat'']\<rparr>"
proof -
  have h: "tok_idx \<lparr>tok_idx = 3, ner_idx = 0, tokens = [''cat'']\<rparr> < length (toks sample_doc)"
    by (simp add: sample_doc_def)
  have h': "tok_idx \<lparr>tok_idx = 1, ner_idx = 0, tokens = []\<rparr> < length (toks sample_doc)"
    by (simp add: sample_doc_def)
  show ?thesis
    using h sample_doc_sorted
      ner_step_branches [OF h sample_doc_sorted, of "{''the'', ''of''}"]
      ner_step_branches [OF h' sample_doc_sorted, of "{''the'', ''of''}"]
    by (simp add: ner_step_def keep_token_def skip_span.simps sample_doc_def lower_eval)
qed

subsection \<open>Plotting helpers\<close>

text \<open>
  Claim C9, at \<open>plot_history\<close> with a file name: the accuracy figure is shown on screen
  (the fifth call) before the loss figure is saved with 300 DPI.
\<close>

theorem plot_history_shows_before_saving:
  "plot_history sample_history (Some ''history.png'')
     = Inr [Title ''Accuracy'', Plot [70, 80] ''train'', Plot [65, 75] ''test'', Legend, Show,
            Title ''Loss'', Plot [50, 30] ''train'', Plot [55, 40] ''test'', Legend,
            Savefig ''history.png'' 300]"
  by (simp add: plot_history_def run_statements_def plt_call_def plt_plot_def sample_history_def)

text \<open>
  Claim C10. \<open>create_word_cloud\<close> does not depend on its \<open>field\<close> argument: the result is
  that for the field \<^verbatim>\<open>token_lemma\<close>, and two dataframes with the same \<^verbatim>\<open>token_lemma\<close> column
  give the same result whatever fields are passed.
\<close>

theorem create_word_cloud_ignores_field:
  "create_word_cloud df label field = create_word_cloud df label ''token_lemma''
   \<and> (df ''token_lemma'' = df' ''token_lemma'' \<longrightarrow>
        create_word_cloud df label field = create_word_cloud df' label field')"
  by (simp add: create_word_cloud_def)

theorem create_word_cloud_ignores_field_witness:
  "[''token_lemma'' \<mapsto> [Tokens [''cat'', ''sit''], Tokens [''cat'']],
    ''token_stem'' \<mapsto> [Tokens [''dog'']]] ''token_lemma''
     = [''token_lemma'' \<mapsto> [Tokens [''cat'', ''sit''], Tokens [''cat'']]] ''token_lemma''
   \<and> create_word_cloud [''token_lemma'' \<mapsto> [Tokens [''cat'', ''sit''], Tokens [''cat'']],
                        ''token_stem'' \<mapsto> [Tokens [''dog'']]] ''all'' ''token_stem''
       = create_word_cloud [''token_lemma'' \<mapsto> [Tokens [''cat'', ''sit''], Tokens [''cat'']]]
           ''all'' ''token_lemma''
   \<and> create_word_cloud [''token_lemma'' \<mapsto> [Tokens [''cat'', ''sit''], Tokens [''cat'']],
                        ''token_stem'' \<mapsto> [Tokens [''dog'']]] ''all'' ''token_stem''
       = Inr [Print ''all'' 2, Generate_from_frequencies [(''cat'', 2), (''sit'', 1)] 1000,
              Imshow, Axis_off, Show_cloud]"
proof -
  have h: "[''token_lemma'' \<mapsto> [Tokens [''cat'', ''sit''], Tokens [''cat'']],
            ''token_stem'' \<mapsto> [Tokens [''dog'']]] ''token_lemma''
     = [''token_lemma'' \<mapsto> [Tokens [''cat'', ''sit''], Tokens [''cat'']]] ''token_lemma''"
    by simp
  show ?thesis
    using h create_word_cloud_ignores_field
      [of "[''token_lemma'' \<mapsto> [Tokens [''cat'', ''sit''], Tokens [''cat'']],
            ''token_stem'' \<mapsto> [Tokens [''dog'']]]" "''all''" "''token_stem''"
          "[''token_lemma'' \<mapsto> [Tokens [''cat'', ''sit''], Tokens [''cat'']]]" "''token_lemma''"]
    by (simp add: create_word_cloud_def run_statements_def counter_update_def)
qed

end
